theory Spec2Isabelle
  imports Complex_Main
begin

section \<open>The Nine card game: values\<close>

text \<open>
  The development follows \<^verbatim>\<open>src/js/controllers/NineGameController.js\<close>.

  A JavaScript number is a double. The numbers of the game are whole numbers far below
  \<open>2^53\<close>, on which the arithmetic of doubles is exact, and the two infinities and
  \<^verbatim>\<open>NaN\<close>, which arise when a continuation of \<^verbatim>\<open>handleConfirm\<close> runs on a state it was not
  started on. Besides numbers, a card slot can hold \<^verbatim>\<open>null\<close> and \<^verbatim>\<open>undefined\<close>.
\<close>

datatype jsnum = Fin int | PosInf | NegInf | NaN

datatype val = Null | Undefined | Num jsnum

text \<open>\<^verbatim>\<open>ToNumber\<close>, which addition and comparison apply to their operands.\<close>

fun to_number :: "val \<Rightarrow> jsnum" where
  "to_number Null = Fin 0"
| "to_number Undefined = NaN"
| "to_number (Num x) = x"

fun js_add :: "jsnum \<Rightarrow> jsnum \<Rightarrow> jsnum" where
  "js_add NaN y = NaN"
| "js_add x NaN = NaN"
| "js_add (Fin a) (Fin b) = Fin (a + b)"
| "js_add PosInf NegInf = NaN"
| "js_add NegInf PosInf = NaN"
| "js_add PosInf y = PosInf"
| "js_add x PosInf = PosInf"
| "js_add NegInf y = NegInf"
| "js_add x NegInf = NegInf"

fun js_neg :: "jsnum \<Rightarrow> jsnum" where
  "js_neg (Fin a) = Fin (- a)"
| "js_neg PosInf = NegInf"
| "js_neg NegInf = PosInf"
| "js_neg NaN = NaN"

definition js_sub :: "jsnum \<Rightarrow> jsnum \<Rightarrow> jsnum" where
  "js_sub x y = js_add x (js_neg y)"

text \<open>\<^verbatim>\<open>x < y\<close>: false as soon as an operand is \<^verbatim>\<open>NaN\<close>.\<close>

fun js_lt :: "jsnum \<Rightarrow> jsnum \<Rightarrow> bool" where
  "js_lt NaN y = False"
| "js_lt x NaN = False"
| "js_lt (Fin a) (Fin b) = (a < b)"
| "js_lt PosInf y = False"
| "js_lt x NegInf = False"
| "js_lt x PosInf = True"
| "js_lt NegInf y = True"

definition js_gt :: "jsnum \<Rightarrow> jsnum \<Rightarrow> bool" where
  "js_gt x y = js_lt y x"

text \<open>\<^verbatim>\<open>x <= y\<close>: not \<^verbatim>\<open>y < x\<close>, and false on \<^verbatim>\<open>NaN\<close>.\<close>

definition js_le :: "jsnum \<Rightarrow> jsnum \<Rightarrow> bool" where
  "js_le x y = (x \<noteq> NaN \<and> y \<noteq> NaN \<and> \<not> js_lt y x)"

text \<open>A value in a template literal.\<close>

fun show_nat :: "nat \<Rightarrow> string" where
  "show_nat n =
     (if n < 10 then [''0123456789'' ! n]
      else show_nat (n div 10) @ [''0123456789'' ! (n mod 10)])"

declare show_nat.simps [simp del]

definition show_int :: "int \<Rightarrow> string" where
  "show_int i = (if i < 0 then CHR ''-'' # show_nat (nat (- i)) else show_nat (nat i))"

fun show_jsnum :: "jsnum \<Rightarrow> string" where
  "show_jsnum (Fin i) = show_int i"
| "show_jsnum PosInf = ''Infinity''"
| "show_jsnum NegInf = ''-Infinity''"
| "show_jsnum NaN = ''NaN''"

fun show_val :: "val \<Rightarrow> string" where
  "show_val Null = ''null''"
| "show_val Undefined = ''undefined''"
| "show_val (Num x) = show_jsnum x"

section \<open>Doubles in the unit interval\<close>

text \<open>
  \<^verbatim>\<open>Math.random()\<close> is an input of the model. It returns a double that is at least 0 and
  less than 1. A non-negative double is a pair \<open>(m, e)\<close> that stands for \<open>m * 2^e\<close>, with a
  mantissa from 0 to below \<open>2^53\<close> and an exponent of at least \<open>-1074\<close>; one number has
  several such pairs.
\<close>

type_synonym double = "int \<times> int"

definition dval :: "double \<Rightarrow> real" where
  "dval d =
     (case d of (m, e) \<Rightarrow>
        if e \<ge> 0 then of_int m * 2 ^ nat e else of_int m / 2 ^ nat (- e))"

definition random_value :: "double \<Rightarrow> bool" where
  "random_value d =
     (case d of (m, e) \<Rightarrow>
        0 \<le> m \<and> m < 2 ^ 53 \<and> - 1074 \<le> e \<and> e < 0 \<and> m < 2 ^ nat (- e))"

text \<open>The number of binary digits of a whole number, 0 for those that are not positive.\<close>

function bits :: "int \<Rightarrow> nat" where
  "bits n = (if n \<le> 0 then 0 else Suc (bits (n div 2)))"
  by pat_completeness auto
termination
  by (relation "measure nat") auto

declare bits.simps [simp del]

text \<open>
  Rounding a whole number that is not negative to 53 significant bits, to the nearest
  and to the even one at a tie: the result \<open>(q, s)\<close> stands for \<open>q * 2^s\<close>.
\<close>

definition round53 :: "int \<Rightarrow> int \<times> nat" where
  "round53 M =
     (if M < 2 ^ 53 then (M, 0)
      else
        let s = bits M - 53;
            q = M div 2 ^ s;
            rest = M mod 2 ^ s;
            half = 2 ^ (s - 1)
        in (if rest > half \<or> (rest = half \<and> odd q) then q + 1 else q, s))"

text \<open>
  \<^verbatim>\<open>Math.random() * array.length\<close>: the product of a double and a whole number, rounded
  once. The exact product is \<open>m * n * 2^e\<close>. It is a multiple of \<open>2^(-1074)\<close>, so nothing
  is lost to the subnormal range, and it is below \<open>n\<close>, so nothing overflows.
\<close>

definition times_length :: "double \<Rightarrow> nat \<Rightarrow> double" where
  "times_length d n =
     (case d of (m, e) \<Rightarrow> case round53 (m * int n) of (q, s) \<Rightarrow> (q, e + int s))"

text \<open>\<^verbatim>\<open>Math.floor\<close> of a non-negative double.\<close>

definition math_floor :: "double \<Rightarrow> int" where
  "math_floor d =
     (case d of (m, e) \<Rightarrow> if e \<ge> 0 then m * 2 ^ nat e else m div 2 ^ nat (- e))"

definition random_index :: "double \<Rightarrow> nat \<Rightarrow> int" where
  "random_index r n = math_floor (times_length r n)"

text \<open>\<^verbatim>\<open>x < y\<close> on non-negative doubles, by bringing both to the smaller exponent.\<close>

definition double_less :: "double \<Rightarrow> double \<Rightarrow> bool" where
  "double_less x y =
     (case x of (m1, e1) \<Rightarrow> case y of (m2, e2) \<Rightarrow>
        let k = min e1 e2 in m1 * 2 ^ nat (e1 - k) < m2 * 2 ^ nat (e2 - k))"

text \<open>The double that the literal \<^verbatim>\<open>0.6\<close> denotes; it is a little below \<open>6/10\<close>.\<close>

definition point_six :: double where
  "point_six = (5404319552844595, - 53)"

section \<open>Data model\<close>

datatype phase = Selection | Reveal | Complete

datatype winner = Player | Cpu | Tie

text \<open>The object returned by \<^verbatim>\<open>resolveRound\<close>.\<close>

record round_result =
  winner :: winner
  playerPoints :: jsnum
  cpuPoints :: jsnum
  message :: string

text \<open>
  \<^verbatim>\<open>this.state\<close>, without the fields that cache DOM elements, which no decision of the
  game logic reads. The two arrays of available cards are only ever assigned the array
  1..9 or a \<^verbatim>\<open>filter\<close> of themselves, so they hold whole numbers. The player's selection
  is only ever assigned \<^verbatim>\<open>null\<close> (\<^const>\<open>None\<close>) or \<^verbatim>\<open>index + 1\<close>. The other card slots and
  the arrays of used cards can receive any value.
\<close>

record state =
  playerCards :: "int list"
  cpuCards :: "int list"
  playerUsedCards :: "val list"
  cpuUsedCards :: "val list"
  currentTurn :: int
  isPlayerTurn :: bool
  playerSelectedCard :: "int option"
  cpuSelectedCard :: val
  lastPlayerCard :: "int option"
  lastCpuCard :: val
  lastRoundResult :: "round_result option"
  playerScore :: jsnum
  cpuScore :: jsnum
  highScore :: "jsnum option"
  gamePhase :: phase
  isLocked :: bool

text \<open>The player's selection as a value.\<close>

fun selection :: "int option \<Rightarrow> val" where
  "selection None = Null"
| "selection (Some c) = Num (Fin c)"

section \<open>Round resolver\<close>

definition resolveRound :: "val \<Rightarrow> val \<Rightarrow> round_result" where
  "resolveRound playerCard cpuCard =
     (let totalPoints = js_add (to_number playerCard) (to_number cpuCard) in
      if js_gt (to_number playerCard) (to_number cpuCard) then
        \<lparr> winner = Player, playerPoints = totalPoints, cpuPoints = Fin 0,
          message = ''You win '' @ show_jsnum totalPoints @ '' points! (Your ''
            @ show_val playerCard @ '' > CPU '' @ show_val cpuCard @ '')'' \<rparr>
      else if js_gt (to_number cpuCard) (to_number playerCard) then
        \<lparr> winner = Cpu, playerPoints = Fin 0, cpuPoints = totalPoints,
          message = ''CPU wins '' @ show_jsnum totalPoints @ '' points! (CPU ''
            @ show_val cpuCard @ '' > Your '' @ show_val playerCard @ '')'' \<rparr>
      else
        \<lparr> winner = Tie, playerPoints = Fin 0, cpuPoints = Fin 0,
          message = ''Tie! No points awarded. ('' @ show_val playerCard @ '' = ''
            @ show_val cpuCard @ '')'' \<rparr>)"

section \<open>Opponent strategy\<close>

text \<open>
  \<^verbatim>\<open>array[Math.floor(Math.random() * array.length)]\<close>; an index outside the array
  gives \<^verbatim>\<open>undefined\<close>.
\<close>

definition randomChoice :: "double \<Rightarrow> int list \<Rightarrow> val" where
  "randomChoice r array =
     (let i = random_index r (length array) in
      if 0 \<le> i \<and> i < int (length array) then Num (Fin (array ! nat i)) else Undefined)"

text \<open>\<^verbatim>\<open>Math.max(...array)\<close>; of no arguments it is \<^verbatim>\<open>-Infinity\<close>.\<close>

fun math_max :: "int list \<Rightarrow> val" where
  "math_max [] = Num NegInf"
| "math_max (x # xs) = Num (Fin (fold max xs x))"

text \<open>
  \<open>r1\<close> and \<open>r2\<close> are the first and the second value that \<^verbatim>\<open>Math.random()\<close> returns
  during the call. The test \<^verbatim>\<open>middleCards.length > 0 && Math.random() < 0.6\<close> draws only
  when there is a middle card, so the fallback uses the second draw exactly when the
  first was spent on that test.
\<close>

definition cpuSelectCard :: "double \<Rightarrow> double \<Rightarrow> state \<Rightarrow> val" where
  "cpuSelectCard r1 r2 s =
     (let availableCards = cpuCards s;
          remainingTurns = 10 - currentTurn s;
          scoreDiff = js_sub (cpuScore s) (playerScore s)
      in
      if js_lt scoreDiff (Fin (- 15)) \<and> length availableCards > 3 then
        randomChoice r1 (drop (length availableCards - 3) availableCards)
      else if js_gt scoreDiff (Fin 15) \<and> length availableCards > 3 then
        randomChoice r1 (take 3 availableCards)
      else if remainingTurns \<le> 3 \<and> js_le scoreDiff (Fin 0) then
        math_max availableCards
      else
        let middleCards = filter (\<lambda>c. c \<ge> 4 \<and> c \<le> 6) availableCards in
        if middleCards \<noteq> [] then
          (if double_less r1 point_six then randomChoice r2 middleCards
           else randomChoice r2 availableCards)
        else randomChoice r1 availableCards)"

section \<open>Match state machine\<close>

definition startGame :: "state \<Rightarrow> state" where
  "startGame s =
     s\<lparr> playerCards := [1, 2, 3, 4, 5, 6, 7, 8, 9],
        cpuCards := [1, 2, 3, 4, 5, 6, 7, 8, 9],
        playerUsedCards := [],
        cpuUsedCards := [],
        currentTurn := 1,
        isPlayerTurn := True,
        playerSelectedCard := None,
        cpuSelectedCard := Null,
        lastPlayerCard := None,
        lastCpuCard := Null,
        lastRoundResult := None,
        playerScore := Fin 0,
        cpuScore := Fin 0,
        gamePhase := Selection,
        isLocked := False \<rparr>"

definition resetGame :: "state \<Rightarrow> state" where
  "resetGame s = startGame s"

text \<open>
  The handlers have no \<^verbatim>\<open>throw\<close> statement. To be able to say so, a handler returns
  \<open>error + state\<close>, where the errors are those named by the specification; every
  \<^verbatim>\<open>return\<close> of the source is an \<^const>\<open>Inr\<close>.
\<close>

datatype error = InvalidSelectionError | InvalidCardError | InvalidPhaseError

definition handleCardClick :: "nat \<Rightarrow> state \<Rightarrow> error + state" where
  "handleCardClick index s =
     (if isLocked s then Inr s
      else if gamePhase s \<noteq> Selection then Inr s
      else
        let cardValue = int index + 1 in
        if Num (Fin cardValue) \<in> set (playerUsedCards s) then Inr s
        else if playerSelectedCard s = Some cardValue then Inr (s\<lparr>playerSelectedCard := None\<rparr>)
        else Inr (s\<lparr>playerSelectedCard := Some cardValue\<rparr>))"

text \<open>
  \<^verbatim>\<open>handleConfirm\<close> is asynchronous: it runs up to \<^verbatim>\<open>await this.sleep(1000)\<close>, resumes up
  to the \<^verbatim>\<open>await this.sleep(2000)\<close> inside \<^verbatim>\<open>revealCards\<close>, and resumes again to finish.
  Each of the three pieces is one function; none of them keeps a local variable across
  an \<^verbatim>\<open>await\<close>. The first returns the state together with whether the call got past its
  checks and is now suspended.
\<close>

definition handleConfirm :: "state \<Rightarrow> error + state \<times> bool" where
  "handleConfirm s =
     (if isLocked s then Inr (s, False)
      else if playerSelectedCard s = None then Inr (s, False)
      else if gamePhase s \<noteq> Selection then Inr (s, False)
      else Inr (s\<lparr>isLocked := True\<rparr>, True))"

text \<open>\<^verbatim>\<open>revealCards\<close> up to its \<^verbatim>\<open>await\<close>.\<close>

definition revealCards :: "state \<Rightarrow> state" where
  "revealCards s =
     (let playerCard = selection (lastPlayerCard s);
          cpuCard = lastCpuCard s;
          result = resolveRound playerCard cpuCard
      in s\<lparr> lastRoundResult := Some result,
            playerScore := js_add (playerScore s) (playerPoints result),
            cpuScore := js_add (cpuScore s) (cpuPoints result) \<rparr>)"

text \<open>
  From the first \<^verbatim>\<open>await\<close> of \<^verbatim>\<open>handleConfirm\<close> to the second. Nothing is checked again
  after the delay: the piece works on the state as it is by then.
\<close>

definition handleConfirm_play :: "double \<Rightarrow> double \<Rightarrow> state \<Rightarrow> state" where
  "handleConfirm_play r1 r2 s =
     (let s1 = s\<lparr>cpuSelectedCard := cpuSelectCard r1 r2 s\<rparr>;
          s2 = s1\<lparr>lastPlayerCard := playerSelectedCard s1, lastCpuCard := cpuSelectedCard s1\<rparr>;
          s3 = s2\<lparr>playerUsedCards := playerUsedCards s2 @ [selection (playerSelectedCard s2)],
                 cpuUsedCards := cpuUsedCards s2 @ [cpuSelectedCard s2]\<rparr>;
          s4 = s3\<lparr>playerCards := filter (\<lambda>c. Some c \<noteq> playerSelectedCard s3) (playerCards s3),
                 cpuCards := filter (\<lambda>c. Num (Fin c) \<noteq> cpuSelectedCard s3) (cpuCards s3)\<rparr>;
          s5 = s4\<lparr>gamePhase := Reveal\<rparr>
      in revealCards s5)"

definition nextTurn :: "state \<Rightarrow> state" where
  "nextTurn s =
     s\<lparr> currentTurn := currentTurn s + 1,
        isPlayerTurn := ((currentTurn s + 1) mod 2 = 1),
        playerSelectedCard := None,
        cpuSelectedCard := Null,
        gamePhase := Selection,
        isLocked := False \<rparr>"

text \<open>
  The persistence service is not part of the controller. Its two methods that the
  controller calls are parameters: reading the stored high score from the storage, and
  writing a score, which yields a success flag and the new storage. The controller drops
  the flag.
\<close>

record 'w persistence =
  loadNineGameHighScore :: "'w \<Rightarrow> jsnum option"
  saveNineGameScore :: "jsnum \<Rightarrow> 'w \<Rightarrow> bool \<times> 'w"

definition checkAndSaveHighScore :: "'w persistence \<Rightarrow> state \<Rightarrow> 'w \<Rightarrow> bool \<times> state \<times> 'w" where
  "checkAndSaveHighScore service s w =
     (let currentScore = playerScore s; currentBest = highScore s in
      if currentBest = None \<or> js_gt currentScore (the currentBest) then
        (True, s\<lparr>highScore := Some currentScore\<rparr>,
         snd (saveNineGameScore service currentScore w))
      else (False, s, w))"

text \<open>
  The argument of \<^verbatim>\<open>showResultModal\<close>. The source builds it in a timer callback one
  second after completion, reading the scores and the high score then; the model builds
  it at completion.
\<close>

record match_result =
  result_winner :: winner
  result_message :: string
  result_playerScore :: jsnum
  result_cpuScore :: jsnum
  result_highScore :: "jsnum option"
  isNewRecord :: bool

definition handleGameComplete ::
    "'w persistence \<Rightarrow> state \<Rightarrow> 'w \<Rightarrow> match_result \<times> state \<times> 'w" where
  "handleGameComplete service s w =
     (let s1 = s\<lparr>gamePhase := Complete, isLocked := True\<rparr>;
          (win, msg) =
            (if js_gt (playerScore s1) (cpuScore s1) then (Player, ''You Win!'')
             else if js_gt (cpuScore s1) (playerScore s1) then (Cpu, ''CPU Wins!'')
             else (Tie, ''It's a Tie!''));
          (isNew, s2, w2) = checkAndSaveHighScore service s1 w
      in (\<lparr> result_winner = win, result_message = msg,
             result_playerScore = playerScore s2, result_cpuScore = cpuScore s2,
             result_highScore = highScore s2, isNewRecord = isNew \<rparr>, s2, w2))"

text \<open>The last piece of \<^verbatim>\<open>handleConfirm\<close>, after the second \<^verbatim>\<open>await\<close>.\<close>

definition handleConfirm_finish :: "'w persistence \<Rightarrow> state \<Rightarrow> 'w \<Rightarrow> state \<times> 'w" where
  "handleConfirm_finish service s w =
     (if currentTurn s \<ge> 9 then snd (handleGameComplete service s w)
      else (nextTurn s, w))"

text \<open>The state set up by the constructor.\<close>

definition constructed :: state where
  "constructed =
     \<lparr> playerCards = [1, 2, 3, 4, 5, 6, 7, 8, 9],
       cpuCards = [1, 2, 3, 4, 5, 6, 7, 8, 9],
       playerUsedCards = [],
       cpuUsedCards = [],
       currentTurn = 1,
       isPlayerTurn = True,
       playerSelectedCard = None,
       cpuSelectedCard = Null,
       lastPlayerCard = None,
       lastCpuCard = Null,
       lastRoundResult = None,
       playerScore = Fin 0,
       cpuScore = Fin 0,
       highScore = None,
       gamePhase = Selection,
       isLocked = False \<rparr>"

text \<open>\<^verbatim>\<open>init\<close>: load the high score, then start the game.\<close>

definition init :: "'w persistence \<Rightarrow> state \<Rightarrow> 'w \<Rightarrow> state" where
  "init service s w = startGame (s\<lparr>highScore := loadNineGameHighScore service w\<rparr>)"

section \<open>The controller as a transition system\<close>

text \<open>
  Between two pieces of \<^verbatim>\<open>handleConfirm\<close> the browser delivers further events: clicks on a
  card, on Confirm and on New Game, and the timers of other calls of \<^verbatim>\<open>handleConfirm\<close>
  that are still suspended. New Game runs \<^verbatim>\<open>resetGame\<close> whatever the state is and cancels
  no timer, so several calls can be suspended at once. A suspended call holds no data of
  its own, and the timers of one delay fire in the order in which they were started, so
  it is enough to count the calls: those in the thinking delay and those in the reveal
  delay.
\<close>

type_synonym pending = "nat \<times> nat"

datatype event =
    CardClick nat
  | ConfirmClick
  | NewGameClick
  | ThinkDone double double
  | RevealDone

type_synonym 'w config = "state \<times> pending \<times> 'w"

text \<open>
  One event. \<^const>\<open>None\<close> means only that a timer fires which was never started.
\<close>

fun exec :: "'w persistence \<Rightarrow> event \<Rightarrow> 'w config \<Rightarrow> 'w config option" where
  "exec service (CardClick i) (s, pc, w) =
     (case handleCardClick i s of Inr s' \<Rightarrow> Some (s', pc, w) | Inl e \<Rightarrow> None)"
| "exec service ConfirmClick (s, (thinking, revealing), w) =
     (case handleConfirm s of
        Inr (s', suspended) \<Rightarrow>
          Some (s', (if suspended then thinking + 1 else thinking, revealing), w)
      | Inl e \<Rightarrow> None)"
| "exec service NewGameClick (s, pc, w) = Some (resetGame s, pc, w)"
| "exec service (ThinkDone r1 r2) (s, (thinking, revealing), w) =
     (if thinking > 0 then Some (handleConfirm_play r1 r2 s, (thinking - 1, revealing + 1), w)
      else None)"
| "exec service RevealDone (s, (thinking, revealing), w) =
     (if revealing > 0 then
        (case handleConfirm_finish service s w of
           (s', w') \<Rightarrow> Some (s', (thinking, revealing - 1), w'))
      else None)"

text \<open>
  The events the environment can produce: a click listener exists for each of the nine
  card elements (index 0 to 8), and \<^verbatim>\<open>Math.random()\<close> returns a double in \<open>[0, 1)\<close>.
\<close>

fun admissible :: "event \<Rightarrow> bool" where
  "admissible (CardClick i) = (i < 9)"
| "admissible (ThinkDone r1 r2) = (random_value r1 \<and> random_value r2)"
| "admissible e = True"

text \<open>
  The configurations the controller can be in: after \<^verbatim>\<open>init\<close> on the constructed state,
  whatever the storage holds, and after any admissible event from there.
\<close>

inductive reachable :: "'w persistence \<Rightarrow> 'w config \<Rightarrow> bool"
  for service :: "'w persistence" where
  start: "reachable service (init service constructed w, (0, 0), w)"
| step: "reachable service c \<Longrightarrow> admissible e \<Longrightarrow> exec service e c = Some c' \<Longrightarrow>
         reachable service c'"

fun run :: "'w persistence \<Rightarrow> event list \<Rightarrow> 'w config \<Rightarrow> 'w config option" where
  "run service [] c = Some c"
| "run service (e # es) c =
     (case exec service e c of Some c' \<Rightarrow> run service es c' | None \<Rightarrow> None)"

text \<open>What holds of the cards and of the turn counter in every configuration.\<close>

definition cards_inv :: "state \<Rightarrow> bool" where
  "cards_inv s \<longleftrightarrow>
     sorted_wrt (<) (playerCards s) \<and> sorted_wrt (<) (cpuCards s) \<and>
     (\<forall>c. c \<in> set (playerCards s) \<longleftrightarrow>
          1 \<le> c \<and> c \<le> 9 \<and> Num (Fin c) \<notin> set (playerUsedCards s)) \<and>
     (\<forall>c. c \<in> set (cpuCards s) \<longleftrightarrow>
          1 \<le> c \<and> c \<le> 9 \<and> Num (Fin c) \<notin> set (cpuUsedCards s))"

definition turn_inv :: "state \<Rightarrow> bool" where
  "turn_inv s \<longleftrightarrow>
     1 \<le> currentTurn s \<and> currentTurn s \<le> 9 \<and>
     (gamePhase s = Complete \<longrightarrow> currentTurn s = 9)"

section \<open>Concrete runs\<close>

text \<open>
  A storage that remembers the stored high score and every call of the write method,
  with a service that stores what it is given and one whose writes fail.
\<close>

record storage =
  stored :: "jsnum option"
  calls :: "jsnum list"

definition working :: "storage persistence" where
  "working =
     \<lparr> loadNineGameHighScore = stored,
       saveNineGameScore = (\<lambda>v w. (True, w\<lparr>stored := Some v, calls := calls w @ [v]\<rparr>)) \<rparr>"

definition failing :: "storage persistence" where
  "failing =
     \<lparr> loadNineGameHighScore = stored,
       saveNineGameScore = (\<lambda>v w. (False, w\<lparr>calls := calls w @ [v]\<rparr>)) \<rparr>"

definition empty_storage :: storage where
  "empty_storage = \<lparr> stored = None, calls = [] \<rparr>"

text \<open>
  One turn: the player clicks the card element \<open>i\<close> and confirms, the opponent draws
  \<open>r1\<close> and \<open>r2\<close>, the reveal delay passes.
\<close>

definition turn :: "nat \<Rightarrow> double \<Rightarrow> double \<Rightarrow> event list" where
  "turn i r1 r2 = [CardClick i, ConfirmClick, ThinkDone r1 r2, RevealDone]"

text \<open>
  An ordinary match: the player plays 9, 8, ..., 1, each turn running to its end before
  the next begins.
\<close>

definition full_match :: "event list" where
  "full_match =
     turn 8 (3, - 2) (7, - 3) @ turn 7 (1, - 1) (1, - 2) @ turn 6 (1, - 1) (1, - 2) @
     turn 5 (7, - 3) (1, - 2) @ turn 4 (0, - 1) (0, - 1) @ turn 3 (1, - 3) (3, - 2) @
     turn 2 (1, - 1) (1, - 1) @ turn 1 (3, - 2) (3, - 2) @ turn 0 (1, - 4) (7, - 3)"

text \<open>
  Configurations of that match with the working service: at its start, after the click on
  the card 9, after the confirmation, after the first turn and at the end.
\<close>

definition start_config :: "storage config" where
  "start_config = (init working constructed empty_storage, (0, 0), empty_storage)"

definition selected_config :: "storage config" where
  "selected_config =
     ((init working constructed empty_storage)\<lparr>playerSelectedCard := Some 9\<rparr>,
      (0, 0), empty_storage)"

definition thinking_config :: "storage config" where
  "thinking_config =
     ((init working constructed empty_storage)\<lparr>playerSelectedCard := Some 9, isLocked := True\<rparr>,
      (1, 0), empty_storage)"

definition turn2_config :: "storage config" where
  "turn2_config =
     (\<lparr> playerCards = [1, 2, 3, 4, 5, 6, 7, 8],
        cpuCards = [1, 2, 3, 4, 5, 6, 7, 9],
        playerUsedCards = [Num (Fin 9)],
        cpuUsedCards = [Num (Fin 8)],
        currentTurn = 2,
        isPlayerTurn = False,
        playerSelectedCard = None,
        cpuSelectedCard = Null,
        lastPlayerCard = Some 9,
        lastCpuCard = Num (Fin 8),
        lastRoundResult =
          Some \<lparr> winner = Player, playerPoints = Fin 17, cpuPoints = Fin 0,
                 message = ''You win 17 points! (Your 9 > CPU 8)'' \<rparr>,
        playerScore = Fin 17,
        cpuScore = Fin 0,
        highScore = None,
        gamePhase = Selection,
        isLocked = False \<rparr>, (0, 0), empty_storage)"

definition final_config :: "storage config" where
  "final_config =
     (\<lparr> playerCards = [],
        cpuCards = [],
        playerUsedCards =
          [Num (Fin 9), Num (Fin 8), Num (Fin 7), Num (Fin 6), Num (Fin 5),
           Num (Fin 4), Num (Fin 3), Num (Fin 2), Num (Fin 1)],
        cpuUsedCards =
          [Num (Fin 8), Num (Fin 7), Num (Fin 6), Num (Fin 9), Num (Fin 3),
           Num (Fin 2), Num (Fin 5), Num (Fin 4), Num (Fin 1)],
        currentTurn = 9,
        isPlayerTurn = True,
        playerSelectedCard = Some 1,
        cpuSelectedCard = Num (Fin 1),
        lastPlayerCard = Some 1,
        lastCpuCard = Num (Fin 1),
        lastRoundResult =
          Some \<lparr> winner = Tie, playerPoints = Fin 0, cpuPoints = Fin 0,
                 message = ''Tie! No points awarded. (1 = 1)'' \<rparr>,
        playerScore = Fin 59,
        cpuScore = Fin 29,
        highScore = Some (Fin 59),
        gamePhase = Complete,
        isLocked = True \<rparr>,
      (0, 0), \<lparr> stored = Some (Fin 59), calls = [Fin 59] \<rparr>)"

text \<open>
  New Game during the thinking delay: the player selects the card 9 and confirms, clicks
  New Game within the second that follows, and the delay ends.
\<close>

definition reset_while_thinking :: "event list" where
  "reset_while_thinking =
     [CardClick 8, ConfirmClick, NewGameClick, ThinkDone (1, - 1) (1, - 2)]"

definition null_round_config :: "storage config" where
  "null_round_config =
     (\<lparr> playerCards = [1, 2, 3, 4, 5, 6, 7, 8, 9],
        cpuCards = [1, 2, 3, 5, 6, 7, 8, 9],
        playerUsedCards = [Null],
        cpuUsedCards = [Num (Fin 4)],
        currentTurn = 1,
        isPlayerTurn = True,
        playerSelectedCard = None,
        cpuSelectedCard = Num (Fin 4),
        lastPlayerCard = None,
        lastCpuCard = Num (Fin 4),
        lastRoundResult =
          Some \<lparr> winner = Cpu, playerPoints = Fin 0, cpuPoints = Fin 4,
                 message = ''CPU wins 4 points! (CPU 4 > Your null)'' \<rparr>,
        playerScore = Fin 0,
        cpuScore = Fin 4,
        highScore = None,
        gamePhase = Reveal,
        isLocked = False \<rparr>, (0, 1), empty_storage)"

text \<open>
  Two calls of \<^verbatim>\<open>handleConfirm\<close> kept suspended at once. The player confirms the card 9,
  clicks New Game and confirms the card 9 again before the first thinking delay ends.
  From then on, each time a call finishes and \<^verbatim>\<open>nextTurn\<close> unlocks the game while the other
  call is still in its reveal delay, the player selects a card and confirms. The tenth
  call was confirmed at turn 9 before the ninth finished.
\<close>

definition overlapping :: "event list" where
  "overlapping =
     [CardClick 8, ConfirmClick, NewGameClick, CardClick 8, ConfirmClick,
      ThinkDone (1, - 1) (1, - 2), ThinkDone (1, - 1) (1, - 2),
      RevealDone, CardClick 7, ConfirmClick, RevealDone, CardClick 7, ConfirmClick,
      ThinkDone (1, - 1) (1, - 2), ThinkDone (1, - 1) (1, - 2),
      RevealDone, CardClick 6, ConfirmClick, RevealDone, CardClick 6, ConfirmClick,
      ThinkDone (1, - 1) (1, - 2), ThinkDone (1, - 1) (1, - 2),
      RevealDone, CardClick 5, ConfirmClick, RevealDone, CardClick 5, ConfirmClick,
      ThinkDone (1, - 1) (1, - 2), ThinkDone (1, - 1) (1, - 2),
      RevealDone, CardClick 4, ConfirmClick, RevealDone, CardClick 4, ConfirmClick,
      ThinkDone (1, - 1) (1, - 2), ThinkDone (1, - 1) (1, - 2)]"

definition overdrawn_config :: "storage config" where
  "overdrawn_config =
     (\<lparr> playerCards = [1, 2, 3, 4],
        cpuCards = [],
        playerUsedCards =
          [Num (Fin 9), Num (Fin 9), Num (Fin 8), Num (Fin 8), Num (Fin 7),
           Num (Fin 7), Num (Fin 6), Num (Fin 6), Num (Fin 5), Num (Fin 5)],
        cpuUsedCards =
          [Num (Fin 4), Num (Fin 5), Num (Fin 8), Num (Fin 7), Num (Fin 6),
           Num (Fin 3), Num (Fin 9), Num (Fin 2), Num (Fin 1), Num NegInf],
        currentTurn = 9,
        isPlayerTurn = True,
        playerSelectedCard = Some 5,
        cpuSelectedCard = Num NegInf,
        lastPlayerCard = Some 5,
        lastCpuCard = Num NegInf,
        lastRoundResult =
          Some \<lparr> winner = Player, playerPoints = NegInf, cpuPoints = Fin 0,
                 message = ''You win -Infinity points! (Your 5 > CPU -Infinity)'' \<rparr>,
        playerScore = NegInf,
        cpuScore = Fin 15,
        highScore = None,
        gamePhase = Reveal,
        isLocked = True \<rparr>, (0, 2), empty_storage)"

text \<open>
  Two matches with the failing service and an empty storage: the ordinary match, New
  Game, and a second match in which the player plays 1, 2, ..., 9, up to the reveal
  delay of its last turn.
\<close>

definition start_failing :: "storage config" where
  "start_failing = (init failing constructed empty_storage, (0, 0), empty_storage)"

definition second_match :: "event list" where
  "second_match =
     turn 0 (3, - 2) (7, - 3) @ turn 1 (3, - 2) (7, - 3) @ turn 2 (3, - 2) (7, - 3) @
     turn 3 (3, - 2) (7, - 3) @ turn 4 (3, - 2) (7, - 3) @ turn 5 (3, - 2) (7, - 3) @
     turn 6 (3, - 2) (7, - 3) @ turn 7 (3, - 2) (7, - 3) @
     [CardClick 8, ConfirmClick, ThinkDone (3, - 2) (7, - 3)]"

definition second_reveal_config :: "storage config" where
  "second_reveal_config =
     (\<lparr> playerCards = [],
        cpuCards = [],
        playerUsedCards =
          [Num (Fin 1), Num (Fin 2), Num (Fin 3), Num (Fin 4), Num (Fin 5),
           Num (Fin 6), Num (Fin 7), Num (Fin 8), Num (Fin 9)],
        cpuUsedCards =
          [Num (Fin 8), Num (Fin 9), Num (Fin 3), Num (Fin 4), Num (Fin 5),
           Num (Fin 6), Num (Fin 7), Num (Fin 2), Num (Fin 1)],
        currentTurn = 9,
        isPlayerTurn = True,
        playerSelectedCard = Some 9,
        cpuSelectedCard = Num (Fin 1),
        lastPlayerCard = Some 9,
        lastCpuCard = Num (Fin 1),
        lastRoundResult =
          Some \<lparr> winner = Player, playerPoints = Fin 10, cpuPoints = Fin 0,
                 message = ''You win 10 points! (Your 9 > CPU 1)'' \<rparr>,
        playerScore = Fin 20,
        cpuScore = Fin 20,
        highScore = Some (Fin 59),
        gamePhase = Reveal,
        isLocked = True \<rparr>,
      (0, 1), \<lparr> stored = None, calls = [Fin 59] \<rparr>)"

section \<open>The strategy in the words of the specification\<close>

text \<open>
  The definitions of this section follow the specification, not the source; the two are
  compared under claim C1. The specification describes the opponent over the \<^emph>\<open>set\<close> of
  available cards. \<open>topN\<close> and \<open>bottomN\<close> are the \<open>n\<close> highest and lowest values of the
  set: those with fewer than \<open>n\<close> values above, respectively below, them.
\<close>

definition topN :: "int set \<Rightarrow> nat \<Rightarrow> int set" where
  "topN A n = {c \<in> A. card {d \<in> A. c < d} < n}"

definition bottomN :: "int set \<Rightarrow> nat \<Rightarrow> int set" where
  "bottomN A n = {c \<in> A. card {d \<in> A. d < c} < n}"



section \<open>Strictly ascending lists\<close>

lemma strict_sorted_nth_less:
  fixes xs :: "int list"
  assumes "sorted_wrt (<) xs" "i < length xs" "j < length xs"
  shows "xs ! i < xs ! j \<longleftrightarrow> i < j"
proof
  assume "i < j"
  with assms show "xs ! i < xs ! j" by (simp add: sorted_wrt_nth_less)
next
  assume lt: "xs ! i < xs ! j"
  show "i < j"
  proof (rule ccontr)
    assume "\<not> i < j"
    then have "j = i \<or> j < i" by auto
    then show False
    proof
      assume "j = i" with lt show False by simp
    next
      assume "j < i"
      with assms have "xs ! j < xs ! i" by (simp add: sorted_wrt_nth_less)
      with lt show False by simp
    qed
  qed
qed

lemma set_drop_nth: "set (drop n xs) = {xs ! j | j. n \<le> j \<and> j < length xs}"
proof -
  have "set (drop n xs) = {drop n xs ! k | k. k < length xs - n}"
    by (simp add: set_conv_nth)
  also have "\<dots> = {xs ! (n + k) | k. k < length xs - n}"
    by auto 
  also have "\<dots> = {xs ! j | j. n \<le> j \<and> j < length xs}"
  proof (intro set_eqI iffI; clarify)
    fix k assume "k < length xs - n"
    then show "\<exists>j. xs ! (n + k) = xs ! j \<and> n \<le> j \<and> j < length xs"
      by (intro exI[of _ "n + k"]) auto
  next
    fix j assume "n \<le> j" "j < length xs"
    then show "\<exists>k. xs ! j = xs ! (n + k) \<and> k < length xs - n"
      by (intro exI[of _ "j - n"]) auto
  qed
  finally show ?thesis .
qed

lemma set_take_nth: "set (take n xs) = {xs ! j | j. j < n \<and> j < length xs}"
proof -
  have "set (take n xs) = {take n xs ! k | k. k < min (length xs) n}"
    by (simp add: set_conv_nth)
  also have "\<dots> = {xs ! k | k. k < n \<and> k < length xs}"
  proof (intro set_eqI iffI; clarify)
    fix k assume "k < min (length xs) n"
    then show "\<exists>j. take n xs ! k = xs ! j \<and> j < n \<and> j < length xs"
      by (intro exI[of _ k]) simp
  next
    fix k assume "k < n" "k < length xs"
    then show "\<exists>j. xs ! k = take n xs ! j \<and> j < min (length xs) n"
      by (intro exI[of _ k]) simp
  qed
  finally show ?thesis .
qed

lemma below_set:
  fixes xs :: "int list"
  assumes "sorted_wrt (<) xs" "i < length xs"
  shows "{d \<in> set xs. d < xs ! i} = set (take i xs)"
  unfolding set_take_nth
  using assms by (auto simp: in_set_conv_nth strict_sorted_nth_less)

lemma above_set:
  fixes xs :: "int list"
  assumes "sorted_wrt (<) xs" "i < length xs"
  shows "{d \<in> set xs. xs ! i < d} = set (drop (Suc i) xs)"
  unfolding set_drop_nth
  using assms by (auto simp: in_set_conv_nth strict_sorted_nth_less Suc_le_eq)

lemma strict_sorted_distinct: "sorted_wrt (<) (xs :: int list) \<Longrightarrow> distinct xs"
  by (simp add: strict_sorted_iff)

lemma card_below:
  fixes xs :: "int list"
  assumes "sorted_wrt (<) xs" "i < length xs"
  shows "card {d \<in> set xs. d < xs ! i} = i"
  using assms by (simp add: below_set distinct_card strict_sorted_distinct)

lemma card_above:
  fixes xs :: "int list"
  assumes "sorted_wrt (<) xs" "i < length xs"
  shows "card {d \<in> set xs. xs ! i < d} = length xs - Suc i"
  using assms by (simp add: above_set distinct_card strict_sorted_distinct)

lemma bottomN_sorted:
  fixes xs :: "int list"
  assumes "sorted_wrt (<) xs"
  shows "bottomN (set xs) n = set (take n xs)"
proof -
  have "bottomN (set xs) n = {xs ! i | i. i < length xs \<and> card {d \<in> set xs. d < xs ! i} < n}"
    by (auto simp: bottomN_def in_set_conv_nth)
  also have "\<dots> = {xs ! i | i. i < length xs \<and> i < n}"
    using assms by (auto simp: card_below)
  also have "\<dots> = set (take n xs)"
    by (auto simp: set_take_nth)
  finally show ?thesis .
qed

lemma topN_sorted:
  fixes xs :: "int list"
  assumes "sorted_wrt (<) xs"
  shows "topN (set xs) n = set (drop (length xs - n) xs)"
proof -
  have "topN (set xs) n = {xs ! i | i. i < length xs \<and> card {d \<in> set xs. xs ! i < d} < n}"
    by (auto simp: topN_def in_set_conv_nth)
  also have "\<dots> = {xs ! i | i. i < length xs \<and> length xs - Suc i < n}"
    using assms by (auto simp: card_above)
  also have "\<dots> = {xs ! i | i. length xs - n \<le> i \<and> i < length xs}"
    by (rule Collect_cong) (auto; arith)
  also have "\<dots> = set (drop (length xs - n) xs)"
    by (simp add: set_drop_nth)
  finally show ?thesis .
qed


section \<open>Rounding and the random index\<close>

lemma bits_bounds:
  assumes "n > 0"
  shows "2 ^ (bits n - 1) \<le> n" and "n < 2 ^ bits n"
  using assms
proof (induction n rule: bits.induct)
  case (1 n)
  { case 1
    show ?case
    proof (cases "n div 2 \<le> 0")
      case True
      with \<open>n > 0\<close> have "n = 1" by auto
      then show ?thesis by (simp add: bits.simps)
    next
      case False
      then have pos: "n div 2 > 0" by simp
      with "1.IH"(1) \<open>n > 0\<close> have "2 ^ (bits (n div 2) - 1) \<le> n div 2" by simp
      moreover from pos have "bits (n div 2) > 0" by (simp add: bits.simps)
      ultimately have "2 ^ bits (n div 2) \<le> 2 * (n div 2)"
        by (cases "bits (n div 2)") simp_all
      also have "\<dots> \<le> n" by simp
      finally show ?thesis using \<open>n > 0\<close> by (simp add: bits.simps[of n])
    qed
  next
    case 2
    show ?case
    proof (cases "n div 2 \<le> 0")
      case True
      with \<open>n > 0\<close> have "n = 1" by auto
      then show ?thesis by (simp add: bits.simps)
    next
      case False
      then have "n div 2 > 0" by simp
      with "1.IH"(2) \<open>n > 0\<close> have "n div 2 < 2 ^ bits (n div 2)" by simp
      then have "n < 2 * 2 ^ bits (n div 2)" by linarith
      then show ?thesis using \<open>n > 0\<close> by (simp add: bits.simps[of n])
    qed
  }
qed

lemma round53_small: "M < 2 ^ 53 \<Longrightarrow> round53 M = (M, 0)"
  by (simp add: round53_def)

lemma round53_large:
  assumes "\<not> M < 2 ^ 53" and "round53 M = (q, s)"
  shows "s \<ge> 1" and "2 ^ (s + 52) \<le> M" and "q * 2 ^ s \<le> M + 2 ^ (s - 1)"
proof -
  have "(0::int) < 2 ^ 53" by simp
  with assms(1) have pos: "M > 0" by linarith
  from assms have s: "s = bits M - 53" by (simp add: round53_def Let_def)
  have "(2::int) ^ 53 \<le> M" using assms(1) by simp
  also have "M < 2 ^ bits M" by (rule bits_bounds(2)[OF pos])
  finally have lt: "(2::int) ^ 53 < 2 ^ bits M" .
  have one: "(1::int) < 2" by simp
  from power_less_imp_less_exp[OF one lt] have "53 < bits M" .
  with s show s1: "s \<ge> 1" by simp
  from s \<open>53 < bits M\<close> have "s + 52 = bits M - 1" by simp
  with bits_bounds(1)[OF pos] show "2 ^ (s + 52) \<le> M" by simp
  let ?q0 = "M div 2 ^ s" and ?rest = "M mod 2 ^ s"
  have M: "?q0 * 2 ^ s + ?rest = M" by (rule div_mult_mod_eq)
  have rest0: "0 \<le> ?rest" by simp
  from s1 have two: "(2::int) ^ s = 2 * 2 ^ (s - 1)" by (cases s) simp_all
  from assms s have q: "q = (if ?rest > 2 ^ (s - 1) \<or> (?rest = 2 ^ (s - 1) \<and> odd ?q0)
                             then ?q0 + 1 else ?q0)"
    by (auto simp add: round53_def Let_def)
  show "q * 2 ^ s \<le> M + 2 ^ (s - 1)"
  proof (cases "?rest > 2 ^ (s - 1) \<or> (?rest = 2 ^ (s - 1) \<and> odd ?q0)")
    case True
    then have r: "2 ^ (s - 1) \<le> ?rest" by auto
    from True q have "q * 2 ^ s = ?q0 * 2 ^ s + 2 ^ s" by (simp add: algebra_simps)
    also have "\<dots> = ?q0 * 2 ^ s + 2 ^ (s - 1) + 2 ^ (s - 1)" using two by simp
    also have "\<dots> \<le> ?q0 * 2 ^ s + ?rest + 2 ^ (s - 1)" using r by simp
    also have "\<dots> = M + 2 ^ (s - 1)" by (simp only: M)
    finally show ?thesis .
  next
    case False
    with q have "q * 2 ^ s = ?q0 * 2 ^ s" by simp
    also have "\<dots> \<le> ?q0 * 2 ^ s + ?rest" using rest0 by linarith
    also have "\<dots> = M" by (rule M)
    finally have "q * 2 ^ s \<le> M" .
    moreover have "(0::int) \<le> 2 ^ (s - 1)" by simp
    ultimately show ?thesis by linarith
  qed
qed

lemma round53_nonneg:
  assumes "0 \<le> M" and "round53 M = (q, s)"
  shows "0 \<le> q"
proof (cases "M < 2 ^ 53")
  case True
  with assms show ?thesis by (simp add: round53_small)
next
  case False
  from assms(1) have "0 \<le> M div 2 ^ (bits M - 53)"
    by (simp add: pos_imp_zdiv_nonneg_iff)
  with False assms(2) show ?thesis
    by (auto simp add: round53_def Let_def split: if_splits)
qed

lemma round53_below:
  assumes m: "0 \<le> m" "m < 2 ^ 53" "m < 2 ^ E" and n: "0 < n"
    and r: "round53 (m * int n) = (q, s)"
  shows "q * 2 ^ s < int n * 2 ^ E"
proof (cases "m * int n < 2 ^ 53")
  case True
  with r have "q = m * int n" "s = 0" by (simp_all add: round53_small)
  with m(3) n show ?thesis by simp
next
  case False
  note L = round53_large[OF False r]
  from L(1) have "53 + (s - 1) = s + 52" by simp
  then have "(2::int) ^ 53 * 2 ^ (s - 1) = 2 ^ (s + 52)"
    by (metis power_add)
  also have "\<dots> \<le> m * int n" by (rule L(2))
  also have "\<dots> < 2 ^ 53 * int n" using m(2) n by simp
  finally have small: "2 ^ (s - 1) < int n" by simp
  from m(3) have "m + 1 \<le> 2 ^ E" by simp
  then have "(m + 1) * int n \<le> 2 ^ E * int n" by (rule mult_right_mono) simp
  then have gap: "m * int n + int n \<le> int n * 2 ^ E" by (simp add: algebra_simps)
  from L(3) have "q * 2 ^ s \<le> m * int n + 2 ^ (s - 1)" .
  also have "\<dots> < m * int n + int n" using small by simp
  also have "\<dots> \<le> int n * 2 ^ E" by (rule gap)
  finally show ?thesis .
qed

lemma int_div_less:
  fixes q n b :: int
  assumes "0 < b" "q < n * b"
  shows "q div b < n"
proof (rule ccontr)
  assume "\<not> q div b < n"
  then have "n \<le> q div b" by simp
  then have le: "n * b \<le> (q div b) * b" using assms(1) by (simp add: mult_right_mono)
  have "0 \<le> q mod b" using assms(1) by simp
  moreover have "(q div b) * b + q mod b = q" by (rule div_mult_mod_eq)
  ultimately have "(q div b) * b \<le> q" by linarith
  with le assms(2) show False by linarith
qed

lemma random_index_lower:
  assumes "random_value r"
  shows "0 \<le> random_index r n"
proof -
  obtain m e where r: "r = (m, e)" by (cases r)
  from assms r have m: "0 \<le> m" by (simp add: random_value_def)
  obtain q s where qs: "round53 (m * int n) = (q, s)" by (cases "round53 (m * int n)")
  from m have "0 \<le> m * int n" by simp
  from round53_nonneg[OF this qs] have "0 \<le> q" .
  then show ?thesis
    by (simp add: random_index_def times_length_def r qs math_floor_def pos_imp_zdiv_nonneg_iff)
qed

lemma random_index_upper:
  assumes "random_value r" and "0 < n"
  shows "random_index r n < int n"
proof -
  obtain m e where r: "r = (m, e)" by (cases r)
  from assms(1) r have m: "0 \<le> m" "m < 2 ^ 53" "m < 2 ^ nat (- e)" and e: "e < 0"
    by (simp_all add: random_value_def)
  obtain q s where qs: "round53 (m * int n) = (q, s)" by (cases "round53 (m * int n)")
  define E where "E = nat (- e)"
  from round53_below[OF m assms(2) qs] have below: "q * 2 ^ s < int n * 2 ^ E"
    by (simp add: E_def)
  have idx: "random_index r n = math_floor (q, e + int s)"
    by (simp add: random_index_def times_length_def r qs)
  show ?thesis
  proof (cases "e + int s \<ge> 0")
    case True
    define k where "k = nat (e + int s)"
    from True e have sE: "s = E + k" by (simp add: E_def k_def)
    from below have "(q * 2 ^ k) * 2 ^ E < int n * 2 ^ E"
      unfolding sE by (simp add: power_add algebra_simps)
    then have "q * 2 ^ k < int n" by simp
    moreover from True have "math_floor (q, e + int s) = q * 2 ^ k"
      by (simp add: math_floor_def k_def)
    ultimately show ?thesis by (simp only: idx)
  next
    case False
    define k where "k = nat (- (e + int s))"
    from False e have Es: "E = s + k" by (simp add: E_def k_def)
    from below have "q * 2 ^ s < (int n * 2 ^ k) * 2 ^ s"
      unfolding Es by (simp add: power_add algebra_simps)
    then have "q < int n * 2 ^ k" by simp
    then have "q div 2 ^ k < int n" by (intro int_div_less) simp_all
    moreover from False have "math_floor (q, e + int s) = q div 2 ^ k"
      by (simp add: math_floor_def k_def)
    ultimately show ?thesis by (simp only: idx)
  qed
qed

section \<open>Properties of the random choice\<close>

lemma math_max_Max: "xs \<noteq> [] \<Longrightarrow> math_max xs = Num (Fin (Max (set xs)))"
  using Max.set_eq_fold[of "hd xs" "tl xs"] by (cases xs) simp_all

lemma math_max_member: "xs \<noteq> [] \<Longrightarrow> \<exists>c. math_max xs = Num (Fin c) \<and> c \<in> set xs"
  using Max_in[of "set xs"] by (simp add: math_max_Max)

lemma random_index_nat:
  assumes "random_value r" and "0 < n"
  shows "nat (random_index r n) < n"
  using random_index_upper[OF assms] random_index_lower[OF assms(1), of n] by linarith

lemma randomChoice_nth:
  assumes "random_value r" "xs \<noteq> []"
  shows "randomChoice r xs = Num (Fin (xs ! nat (random_index r (length xs))))"
  using assms random_index_upper[of r "length xs"] random_index_lower[of r "length xs"]
  by (simp add: randomChoice_def Let_def)

lemma randomChoice_member:
  assumes "random_value r" "xs \<noteq> []"
  shows "\<exists>c. randomChoice r xs = Num (Fin c) \<and> c \<in> set xs"
  using assms random_index_nat[of r "length xs"] by (simp add: randomChoice_nth)



lemma cpuSelectCard_member:
  assumes "cpuCards s \<noteq> []" and "random_value r1" and "random_value r2"
  shows "\<exists>c. cpuSelectCard r1 r2 s = Num (Fin c) \<and> c \<in> set (cpuCards s)"
proof -
  let ?xs = "cpuCards s"
  have top: "\<exists>c. randomChoice r1 (drop (length ?xs - 3) ?xs) = Num (Fin c) \<and> c \<in> set ?xs"
    if "length ?xs > 3"
  proof -
    from that have "drop (length ?xs - 3) ?xs \<noteq> []" by simp
    from randomChoice_member[OF assms(2) this] show ?thesis
      by (auto dest: in_set_dropD)
  qed
  have bot: "\<exists>c. randomChoice r1 (take 3 ?xs) = Num (Fin c) \<and> c \<in> set ?xs"
    if "length ?xs > 3"
  proof -
    from that have "take 3 ?xs \<noteq> []" by auto
    from randomChoice_member[OF assms(2) this] show ?thesis
      by (auto dest: in_set_takeD)
  qed
  have mid: "\<exists>c. randomChoice r2 (filter (\<lambda>c. c \<ge> 4 \<and> c \<le> 6) ?xs) = Num (Fin c) \<and> c \<in> set ?xs"
    if "filter (\<lambda>c. c \<ge> 4 \<and> c \<le> 6) ?xs \<noteq> []"
    using randomChoice_member[OF assms(3) that] by auto
  note all1 = randomChoice_member[OF assms(2) assms(1)]
  note all2 = randomChoice_member[OF assms(3) assms(1)]
  note mx = math_max_member[OF assms(1)]
  show ?thesis
    unfolding cpuSelectCard_def Let_def
    using top bot mid all1 all2 mx by (simp only: split: if_split) blast
qed

lemma js_finite [simp]:
  "js_sub (Fin x) (Fin y) = Fin (x - y)"
  "js_gt (Fin x) (Fin y) = (y < x)"
  "js_le (Fin x) (Fin y) = (x \<le> y)"
  by (auto simp: js_sub_def js_gt_def js_le_def)

section \<open>Invariants of every run\<close>

lemma play_fields:
  "playerCards (handleConfirm_play r1 r2 s) =
     filter (\<lambda>c. Some c \<noteq> playerSelectedCard s) (playerCards s)"
  "cpuCards (handleConfirm_play r1 r2 s) =
     filter (\<lambda>c. Num (Fin c) \<noteq> cpuSelectCard r1 r2 s) (cpuCards s)"
  "playerUsedCards (handleConfirm_play r1 r2 s) =
     playerUsedCards s @ [selection (playerSelectedCard s)]"
  "cpuUsedCards (handleConfirm_play r1 r2 s) = cpuUsedCards s @ [cpuSelectCard r1 r2 s]"
  "currentTurn (handleConfirm_play r1 r2 s) = currentTurn s"
  "gamePhase (handleConfirm_play r1 r2 s) = Reveal"
  "isLocked (handleConfirm_play r1 r2 s) = isLocked s"
  "playerSelectedCard (handleConfirm_play r1 r2 s) = playerSelectedCard s"
  "highScore (handleConfirm_play r1 r2 s) = highScore s"
  by (simp_all add: handleConfirm_play_def revealCards_def Let_def)

lemma play_scores:
  "playerScore (handleConfirm_play r1 r2 s) =
     js_add (playerScore s)
       (playerPoints (resolveRound (selection (playerSelectedCard s)) (cpuSelectCard r1 r2 s)))"
  "cpuScore (handleConfirm_play r1 r2 s) =
     js_add (cpuScore s)
       (cpuPoints (resolveRound (selection (playerSelectedCard s)) (cpuSelectCard r1 r2 s)))"
  by (simp_all add: handleConfirm_play_def revealCards_def Let_def)

lemma checkAndSaveHighScore_state:
  "fst (snd (checkAndSaveHighScore service s w)) = s \<or>
   fst (snd (checkAndSaveHighScore service s w)) = s\<lparr>highScore := Some (playerScore s)\<rparr>"
  by (simp add: checkAndSaveHighScore_def Let_def)

lemma handleGameComplete_snd:
  "snd (handleGameComplete service s w) =
   snd (checkAndSaveHighScore service (s\<lparr>gamePhase := Complete, isLocked := True\<rparr>) w)"
  by (simp add: handleGameComplete_def Let_def case_prod_beta)

lemma handleGameComplete_state:
  "fst (snd (handleGameComplete service s w)) = s\<lparr>gamePhase := Complete, isLocked := True\<rparr> \<or>
   fst (snd (handleGameComplete service s w)) =
     s\<lparr>gamePhase := Complete, isLocked := True, highScore := Some (playerScore s)\<rparr>"
  using checkAndSaveHighScore_state[of service "s\<lparr>gamePhase := Complete, isLocked := True\<rparr>" w]
  by (simp add: handleGameComplete_snd)

lemma finish_state:
  "fst (handleConfirm_finish service s w) =
     (if currentTurn s \<ge> 9 then fst (snd (handleGameComplete service s w)) else nextTurn s)"
  by (simp add: handleConfirm_finish_def)

lemma cards_inv_cong:
  assumes "playerCards s' = playerCards s" "cpuCards s' = cpuCards s"
    "playerUsedCards s' = playerUsedCards s" "cpuUsedCards s' = cpuUsedCards s"
  shows "cards_inv s' = cards_inv s"
  using assms by (simp add: cards_inv_def)

lemma cards_inv_start: "cards_inv (startGame s)"
  by (auto simp add: cards_inv_def startGame_def)

lemma turn_inv_start: "turn_inv (startGame s)"
  by (simp add: turn_inv_def startGame_def)

lemma cards_inv_play:
  assumes "cards_inv s"
  shows "cards_inv (handleConfirm_play r1 r2 s)"
proof -
  have sel: "(Some c \<noteq> playerSelectedCard s) = (Num (Fin c) \<noteq> selection (playerSelectedCard s))"
    for c by (cases "playerSelectedCard s") simp_all
  from assms show ?thesis
    unfolding cards_inv_def play_fields
    by (auto simp add: sorted_wrt_filter sel)
qed

lemma turn_inv_play: "turn_inv s \<Longrightarrow> turn_inv (handleConfirm_play r1 r2 s)"
  by (simp add: turn_inv_def play_fields)

lemma cards_inv_finish:
  assumes "cards_inv s"
  shows "cards_inv (fst (handleConfirm_finish service s w))"
proof -
  have "cards_inv (nextTurn s) = cards_inv s"
    by (rule cards_inv_cong) (simp_all add: nextTurn_def)
  moreover have "cards_inv (fst (snd (handleGameComplete service s w))) = cards_inv s"
    using handleGameComplete_state[of service s w]
    by (auto simp add: cards_inv_def)
  ultimately show ?thesis using assms by (simp add: finish_state)
qed

lemma turn_inv_finish:
  assumes "turn_inv s"
  shows "turn_inv (fst (handleConfirm_finish service s w))"
proof (cases "currentTurn s \<ge> 9")
  case True
  with assms have nine: "currentTurn s = 9" by (simp add: turn_inv_def)
  from handleGameComplete_state[of service s w] nine
  have "turn_inv (fst (snd (handleGameComplete service s w)))"
    by (auto simp add: turn_inv_def)
  with True show ?thesis by (simp add: finish_state)
next
  case False
  with assms have "turn_inv (nextTurn s)" by (simp add: turn_inv_def nextTurn_def)
  with False show ?thesis by (simp add: finish_state)
qed

lemma inv_exec:
  assumes "cards_inv s \<and> turn_inv s" and "exec service e (s, pc, w) = Some (s', pc', w')"
  shows "cards_inv s' \<and> turn_inv s'"
proof (cases e)
  case (CardClick i)
  with assms(2) have "s' = s \<or> (\<exists>x. s' = s\<lparr>playerSelectedCard := x\<rparr>)"
    by (auto simp add: handleCardClick_def Let_def split: if_splits)
  with assms(1) show ?thesis by (auto simp add: cards_inv_def turn_inv_def)
next
  case ConfirmClick
  obtain t r where pc: "pc = (t, r)" by (cases pc)
  from assms(2) ConfirmClick pc have "s' = s \<or> s' = s\<lparr>isLocked := True\<rparr>"
    by (auto simp add: handleConfirm_def split: if_splits)
  with assms(1) show ?thesis by (auto simp add: cards_inv_def turn_inv_def)
next
  case NewGameClick
  with assms(2) have "s' = startGame s" by (simp add: resetGame_def)
  then show ?thesis by (simp add: cards_inv_start turn_inv_start)
next
  case (ThinkDone r1 r2)
  obtain t r where pc: "pc = (t, r)" by (cases pc)
  from assms(2) ThinkDone pc have "s' = handleConfirm_play r1 r2 s"
    by (auto split: if_splits)
  with assms(1) show ?thesis by (simp add: cards_inv_play turn_inv_play)
next
  case RevealDone
  obtain t r where pc: "pc = (t, r)" by (cases pc)
  from assms(2) RevealDone pc have "s' = fst (handleConfirm_finish service s w)"
    by (auto split: if_splits prod.splits)
  with assms(1) show ?thesis by (simp add: cards_inv_finish turn_inv_finish)
qed

lemma reachable_inv:
  assumes "reachable service c"
  shows "cards_inv (fst c) \<and> turn_inv (fst c)"
  using assms
proof (induction rule: reachable.induct)
  case (start w)
  show ?case by (simp add: init_def cards_inv_start turn_inv_start)
next
  case (step c e c')
  obtain s pc w where c: "c = (s, pc, w)" by (cases c)
  obtain s' pc' w' where c': "c' = (s', pc', w')" by (cases c')
  from step c c' inv_exec[of s service e pc w s' pc' w'] show ?case by simp
qed

lemma reachable_parts:
  assumes "reachable service (s, pc, w)"
  shows "cards_inv s" and "turn_inv s"
  using reachable_inv[OF assms] by simp_all

lemma used_iff_unavailable:
  assumes "cards_inv s" and "i < 9"
  shows "Num (Fin (int i + 1)) \<in> set (playerUsedCards s) \<longleftrightarrow>
         int i + 1 \<notin> set (playerCards s)"
proof -
  from assms(2) have "1 \<le> int i + 1 \<and> int i + 1 \<le> 9" by simp
  with assms(1) show ?thesis unfolding cards_inv_def by blast
qed

section \<open>Runs\<close>

lemma run_append:
  "run service (es @ fs) c =
     (case run service es c of Some c' \<Rightarrow> run service fs c' | None \<Rightarrow> None)"
  by (induction es arbitrary: c) (auto split: option.splits)

lemma run_reachable:
  assumes "reachable service c" "list_all admissible es" "run service es c = Some c'"
  shows "reachable service c'"
  using assms
proof (induction es arbitrary: c)
  case Nil
  then show ?case by simp
next
  case (Cons e es)
  from Cons.prems(3) obtain c1 where c1: "exec service e c = Some c1" "run service es c1 = Some c'"
    by (auto split: option.splits)
  from Cons.prems(1,2) c1(1) have "reachable service c1"
    by (auto intro: reachable.step)
  with Cons.IH[of c1] Cons.prems(2) c1(2) show ?case by simp
qed

lemma reachable_start: "reachable working start_config"
  unfolding start_config_def by (rule reachable.start)

lemma reachable_start_failing: "reachable failing start_failing"
  unfolding start_failing_def by (rule reachable.start)

lemma run_selected: "run working [CardClick 8] start_config = Some selected_config"
  by code_simp

lemma run_thinking: "run working [CardClick 8, ConfirmClick] start_config = Some thinking_config"
  by code_simp

lemma run_turn2: "run working (turn 8 (3, - 2) (7, - 3)) start_config = Some turn2_config"
  by code_simp

lemma run_final: "run working full_match start_config = Some final_config"
  by code_simp

lemma run_null_round: "run working reset_while_thinking start_config = Some null_round_config"
  by code_simp

lemma run_overdrawn: "run working overlapping start_config = Some overdrawn_config"
  by code_simp

lemma run_second_reveal:
  "run failing (full_match @ [NewGameClick] @ second_match) start_failing =
   Some second_reveal_config"
  by code_simp

lemma admissible_full_match: "list_all admissible full_match"
  by code_simp

lemma admissible_reset_while_thinking: "list_all admissible reset_while_thinking"
  by code_simp

lemma admissible_overlapping: "list_all admissible overlapping"
  by code_simp

lemma admissible_second_match: "list_all admissible (full_match @ [NewGameClick] @ second_match)"
  by code_simp

lemma reachable_selected: "reachable working selected_config"
  by (rule run_reachable[OF reachable_start _ run_selected]) simp

lemma reachable_thinking: "reachable working thinking_config"
  by (rule run_reachable[OF reachable_start _ run_thinking]) simp

lemma admissible_turn: "list_all admissible (turn 8 (3, - 2) (7, - 3))"
  by code_simp

lemma reachable_turn2: "reachable working turn2_config"
  by (rule run_reachable[OF reachable_start admissible_turn run_turn2])

lemma reachable_final: "reachable working final_config"
  by (rule run_reachable[OF reachable_start admissible_full_match run_final])

lemma reachable_null_round: "reachable working null_round_config"
  by (rule run_reachable[OF reachable_start admissible_reset_while_thinking run_null_round])

lemma reachable_overdrawn: "reachable working overdrawn_config"
  by (rule run_reachable[OF reachable_start admissible_overlapping run_overdrawn])

lemma reachable_second_reveal: "reachable failing second_reveal_config"
  by (rule run_reachable[OF reachable_start_failing admissible_second_match run_second_reveal])

section \<open>Claims\<close>



text \<open>
  C2. For every non-empty array of available opponent cards, all scores and turn numbers
  and every pair of draws in \<open>[0, 1)\<close>, \<^verbatim>\<open>cpuSelectCard\<close> returns a card (not \<^verbatim>\<open>undefined\<close>
  or \<^verbatim>\<open>-Infinity\<close>), and that card is one of the available ones.
\<close>

theorem cpuSelectCard_legal:
  assumes "cpuCards s \<noteq> []" and "random_value r1" and "random_value r2"
  shows "\<exists>c. cpuSelectCard r1 r2 s = Num (Fin c) \<and> c \<in> set (cpuCards s)"
  using assms by (rule cpuSelectCard_member)

theorem cpuSelectCard_legal_witness:
  "cpuCards (fst turn2_config) \<noteq> [] \<and> random_value (1, - 1) \<and> random_value (1, - 2) \<and>
   (\<exists>c. cpuSelectCard (1, - 1) (1, - 2) (fst turn2_config) = Num (Fin c) \<and>
        c \<in> set (cpuCards (fst turn2_config)))"
proof -
  have ne: "cpuCards (fst turn2_config) \<noteq> []" by (simp add: turn2_config_def)
  have r: "random_value (1, - 1)" "random_value (1, - 2)" by (simp_all add: random_value_def)
  from cpuSelectCard_legal[OF ne r] ne r show ?thesis by simp
qed

text \<open>
  C3. The round resolver is a function of the two cards alone. For all cards \<open>a\<close>, \<open>b\<close>
  in 1..9: if \<open>a > b\<close> the winner is the player, who is awarded \<open>a + b\<close> points while the
  opponent gets 0; if \<open>b > a\<close> the winner is the opponent, awarded \<open>a + b\<close> while the player
  gets 0; if \<open>a = b\<close> the round is a tie and both sides get 0.
\<close>

theorem resolveRound_outcome:
  assumes "a \<in> {1..9}" and "b \<in> {1..9}"
  shows "(a > b \<longrightarrow> winner (resolveRound (Num (Fin a)) (Num (Fin b))) = Player \<and>
            playerPoints (resolveRound (Num (Fin a)) (Num (Fin b))) = Fin (a + b) \<and>
            cpuPoints (resolveRound (Num (Fin a)) (Num (Fin b))) = Fin 0) \<and>
         (b > a \<longrightarrow> winner (resolveRound (Num (Fin a)) (Num (Fin b))) = Cpu \<and>
            cpuPoints (resolveRound (Num (Fin a)) (Num (Fin b))) = Fin (a + b) \<and>
            playerPoints (resolveRound (Num (Fin a)) (Num (Fin b))) = Fin 0) \<and>
         (a = b \<longrightarrow> winner (resolveRound (Num (Fin a)) (Num (Fin b))) = Tie \<and>
            playerPoints (resolveRound (Num (Fin a)) (Num (Fin b))) = Fin 0 \<and>
            cpuPoints (resolveRound (Num (Fin a)) (Num (Fin b))) = Fin 0)"
  by (simp add: resolveRound_def Let_def)

theorem resolveRound_outcome_witness:
  "winner (resolveRound (Num (Fin 9)) (Num (Fin 1))) = Player \<and>
   playerPoints (resolveRound (Num (Fin 9)) (Num (Fin 1))) = Fin 10 \<and>
   cpuPoints (resolveRound (Num (Fin 9)) (Num (Fin 1))) = Fin 0 \<and>
   winner (resolveRound (Num (Fin 2)) (Num (Fin 7))) = Cpu \<and>
   cpuPoints (resolveRound (Num (Fin 2)) (Num (Fin 7))) = Fin 9 \<and>
   playerPoints (resolveRound (Num (Fin 2)) (Num (Fin 7))) = Fin 0 \<and>
   winner (resolveRound (Num (Fin 5)) (Num (Fin 5))) = Tie \<and>
   playerPoints (resolveRound (Num (Fin 5)) (Num (Fin 5))) = Fin 0 \<and>
   cpuPoints (resolveRound (Num (Fin 5)) (Num (Fin 5))) = Fin 0"
  using resolveRound_outcome[of 9 1] resolveRound_outcome[of 2 7] resolveRound_outcome[of 5 5]
  by simp

text \<open>
  C4. Claimed: in every reachable state the phase is \<open>Complete\<close> if and only if the turn
  number is greater than 9. This fails: the ordinary match ends in phase \<open>Complete\<close> with
  the turn number still 9, because \<^verbatim>\<open>handleGameComplete\<close> does not increment it.
\<close>

theorem complete_iff_turn_above_9_counterexample:
  "reachable working final_config \<and> gamePhase (fst final_config) = Complete \<and>
   \<not> currentTurn (fst final_config) > 9"
  using reachable_final by (simp add: final_config_def)

text \<open>
  C4, amended. In every reachable state the turn number lies in 1..9, and the phase is
  \<open>Complete\<close> only if the turn number is 9. The step that ends a turn, after the reveal
  delay, makes the phase \<open>Complete\<close> if and only if the turn number is 9, and leaves the
  turn number at 9 then; otherwise it increments the turn number and returns to the
  selection phase.
\<close>

theorem complete_only_at_turn_9:
  assumes "reachable service (s, pc, w)"
  shows "1 \<le> currentTurn s \<and> currentTurn s \<le> 9 \<and>
         (gamePhase s = Complete \<longrightarrow> currentTurn s = 9) \<and>
         (\<forall>s' pc' w'. exec service RevealDone (s, pc, w) = Some (s', pc', w') \<longrightarrow>
            (gamePhase s' = Complete \<longleftrightarrow> currentTurn s = 9) \<and>
            (currentTurn s = 9 \<longrightarrow> currentTurn s' = 9) \<and>
            (currentTurn s \<noteq> 9 \<longrightarrow>
               currentTurn s' = currentTurn s + 1 \<and> gamePhase s' = Selection))"
proof -
  from reachable_parts(2)[OF assms] have ti: "turn_inv s" .
  then have bounds: "1 \<le> currentTurn s" "currentTurn s \<le> 9"
    and compl: "gamePhase s = Complete \<longrightarrow> currentTurn s = 9"
    by (simp_all add: turn_inv_def)
  have fin: "(gamePhase s' = Complete \<longleftrightarrow> currentTurn s = 9) \<and>
            (currentTurn s = 9 \<longrightarrow> currentTurn s' = 9) \<and>
            (currentTurn s \<noteq> 9 \<longrightarrow>
               currentTurn s' = currentTurn s + 1 \<and> gamePhase s' = Selection)"
    if e: "exec service RevealDone (s, pc, w) = Some (s', pc', w')" for s' pc' w'
  proof -
    obtain t r where pc: "pc = (t, r)" by (cases pc)
    from e pc have s': "s' = fst (handleConfirm_finish service s w)"
      by (auto split: if_splits prod.splits)
    show ?thesis
    proof (cases "currentTurn s = 9")
      case True
      with handleGameComplete_state[of service s w] s' show ?thesis
        by (auto simp add: finish_state)
    next
      case False
      with bounds have "\<not> currentTurn s \<ge> 9" by simp
      with s' False show ?thesis by (simp add: finish_state nextTurn_def)
    qed
  qed
  from bounds compl fin show ?thesis by blast
qed

theorem complete_only_at_turn_9_witness:
  "reachable failing second_reveal_config \<and> currentTurn (fst second_reveal_config) = 9 \<and>
   gamePhase (fst second_reveal_config) = Reveal \<and>
   (\<exists>c'. exec failing RevealDone second_reveal_config = Some c' \<and>
      gamePhase (fst c') = Complete \<and> currentTurn (fst c') = 9) \<and>
   reachable working final_config \<and> gamePhase (fst final_config) = Complete \<and>
   currentTurn (fst final_config) = 9"
proof -
  let ?s = "fst second_reveal_config"
  let ?w = "snd (snd second_reveal_config)"
  have c: "second_reveal_config = (?s, (0, 1), ?w)" by (simp add: second_reveal_config_def)
  from reachable_second_reveal c have r: "reachable failing (?s, (0, 1), ?w)" by simp
  have t: "currentTurn ?s = 9" "gamePhase ?s = Reveal"
    by (simp_all add: second_reveal_config_def)
  obtain s' w' where f: "handleConfirm_finish failing ?s ?w = (s', w')"
    by (cases "handleConfirm_finish failing ?s ?w")
  then have e: "exec failing RevealDone (?s, (0, 1), ?w) = Some (s', (0, 0), w')" by simp
  from complete_only_at_turn_9[OF r] e t
  have "gamePhase s' = Complete \<and> currentTurn s' = 9" by blast
  with e c have ex: "\<exists>c'. exec failing RevealDone second_reveal_config = Some c' \<and>
      gamePhase (fst c') = Complete \<and> currentTurn (fst c') = 9"
    by (metis fst_conv)
  have fc: "final_config = (fst final_config, (0, 0), snd (snd final_config))"
    by (simp add: final_config_def)
  from reachable_final fc
  have "reachable working (fst final_config, (0, 0), snd (snd final_config))" by simp
  from complete_only_at_turn_9[OF this]
  have "gamePhase (fst final_config) = Complete \<longrightarrow> currentTurn (fst final_config) = 9"
    by blast
  moreover have "gamePhase (fst final_config) = Complete" by (simp add: final_config_def)
  ultimately show ?thesis
    using reachable_second_reveal reachable_final t ex by blast
qed

text \<open>
  C6. Claimed: selecting a card that is not available, confirming with no selection
  pending, or doing either outside the selection phase is rejected without a change of
  the state and signals an \<open>InvalidSelectionError\<close> (\<open>InvalidCardError\<close>) to the caller.
  No error is signalled: after the first turn of the ordinary match the card 9 is used,
  and a click on it returns normally with the state unchanged; so does a confirmation at
  the start of the match, where nothing is selected.
\<close>

theorem rejection_signals_error_counterexample:
  "reachable working turn2_config \<and> 9 \<notin> set (playerCards (fst turn2_config)) \<and>
   handleCardClick 8 (fst turn2_config) = Inr (fst turn2_config) \<and>
   handleCardClick 8 (fst turn2_config) \<noteq> Inl InvalidSelectionError \<and>
   handleCardClick 8 (fst turn2_config) \<noteq> Inl InvalidCardError \<and>
   reachable working start_config \<and> playerSelectedCard (fst start_config) = None \<and>
   handleConfirm (fst start_config) = Inr (fst start_config, False) \<and>
   handleConfirm (fst start_config) \<noteq> Inl InvalidSelectionError"
proof -
  have "9 \<notin> set (playerCards (fst turn2_config))" by (simp add: turn2_config_def)
  moreover have c: "handleCardClick 8 (fst turn2_config) = Inr (fst turn2_config)"
    by (simp add: handleCardClick_def turn2_config_def)
  moreover have "playerSelectedCard (fst start_config) = None"
    by (simp add: start_config_def init_def startGame_def)
  moreover have h: "handleConfirm (fst start_config) = Inr (fst start_config, False)"
    by (simp add: handleConfirm_def start_config_def init_def startGame_def)
  ultimately show ?thesis using reachable_turn2 reachable_start by simp
qed

text \<open>
  C6, amended. In every reachable state, a click on a card that is not available, or
  outside the selection phase, or while the game is locked, and a confirmation with no
  selection pending, or outside the selection phase, or while the game is locked, return
  normally without signalling anything, change no field of the state and do not advance
  the machine.
\<close>

theorem rejection_is_silent:
  assumes "reachable service (s, pc, w)" and "i < 9"
  shows "(int i + 1 \<notin> set (playerCards s) \<or> gamePhase s \<noteq> Selection \<or> isLocked s \<longrightarrow>
            handleCardClick i s = Inr s \<and>
            exec service (CardClick i) (s, pc, w) = Some (s, pc, w)) \<and>
         (playerSelectedCard s = None \<or> gamePhase s \<noteq> Selection \<or> isLocked s \<longrightarrow>
            handleConfirm s = Inr (s, False) \<and>
            exec service ConfirmClick (s, pc, w) = Some (s, pc, w))"
proof -
  from reachable_parts(1)[OF assms(1)] have ci: "cards_inv s" .
  obtain t r where pc: "pc = (t, r)" by (cases pc)
  have used: "Num (Fin (int i + 1)) \<in> set (playerUsedCards s)"
    if "int i + 1 \<notin> set (playerCards s)"
    using used_iff_unavailable[OF ci assms(2)] that by blast
  have click: "handleCardClick i s = Inr s"
    if "int i + 1 \<notin> set (playerCards s) \<or> gamePhase s \<noteq> Selection \<or> isLocked s"
    using that used by (auto simp: handleCardClick_def Let_def)
  have confirm: "handleConfirm s = Inr (s, False)"
    if "playerSelectedCard s = None \<or> gamePhase s \<noteq> Selection \<or> isLocked s"
    using that by (auto simp: handleConfirm_def)
  from click confirm pc show ?thesis by simp
qed

theorem rejection_is_silent_witness:
  "reachable working turn2_config \<and> 9 \<notin> set (playerCards (fst turn2_config)) \<and>
   playerSelectedCard (fst turn2_config) = None \<and>
   handleCardClick 8 (fst turn2_config) = Inr (fst turn2_config) \<and>
   exec working (CardClick 8) turn2_config = Some turn2_config \<and>
   handleConfirm (fst turn2_config) = Inr (fst turn2_config, False) \<and>
   exec working ConfirmClick turn2_config = Some turn2_config"
proof -
  let ?s = "fst turn2_config"
  have a: "int 8 + 1 \<notin> set (playerCards ?s)" by (simp add: turn2_config_def)
  have b: "playerSelectedCard ?s = None" by (simp add: turn2_config_def)
  have c: "turn2_config = (?s, (0, 0), empty_storage)" by (simp add: turn2_config_def)
  from reachable_turn2 c have r: "reachable working (?s, (0, 0), empty_storage)" by simp
  have i: "(8::nat) < 9" by simp
  from rejection_is_silent[OF r i] a b
  have "handleCardClick 8 ?s = Inr ?s \<and>
        exec working (CardClick 8) (?s, (0, 0), empty_storage) = Some (?s, (0, 0), empty_storage) \<and>
        handleConfirm ?s = Inr (?s, False) \<and>
        exec working ConfirmClick (?s, (0, 0), empty_storage) = Some (?s, (0, 0), empty_storage)"
    by blast
  with c[symmetric] reachable_turn2 a b show ?thesis by simp
qed

text \<open>
  C7. Claimed: in the selection phase, with some card pending, selecting any available
  card \<open>v\<close> makes \<open>v\<close> the pending card, also when \<open>v\<close> is the pending card already. Two
  states of the ordinary match refute this. With the card 9 pending, a click on the card
  9 clears the selection (the click toggles). And after the confirmation, during the
  opponent's thinking delay, the phase is still the selection phase, the card 9 is
  pending, and a click on the available card 3 changes nothing (the game is locked).
\<close>

theorem reselect_keeps_pending_counterexample:
  "reachable working selected_config \<and> gamePhase (fst selected_config) = Selection \<and>
   playerSelectedCard (fst selected_config) = Some 9 \<and>
   9 \<in> set (playerCards (fst selected_config)) \<and>
   handleCardClick 8 (fst selected_config) =
     Inr ((fst selected_config)\<lparr>playerSelectedCard := None\<rparr>) \<and>
   reachable working thinking_config \<and> gamePhase (fst thinking_config) = Selection \<and>
   playerSelectedCard (fst thinking_config) = Some 9 \<and>
   3 \<in> set (playerCards (fst thinking_config)) \<and>
   handleCardClick 2 (fst thinking_config) = Inr (fst thinking_config)"
  using reachable_selected reachable_thinking
  by (simp add: selected_config_def thinking_config_def init_def startGame_def
      handleCardClick_def)

text \<open>
  C7, amended. In the selection phase while the game is not locked, for every reachable
  state with a pending card \<open>q\<close> and every available card \<open>v\<close>: selecting \<open>v\<close> makes \<open>v\<close> the
  pending card if \<open>v \<noteq> q\<close>, and clears the pending selection if \<open>v = q\<close>.
\<close>

theorem reselect_replaces_or_clears:
  assumes "reachable service (s, pc, w)"
    and "gamePhase s = Selection" and "\<not> isLocked s"
    and "playerSelectedCard s = Some q"
    and "i < 9" and "int i + 1 \<in> set (playerCards s)"
  shows "handleCardClick i s =
         Inr (s\<lparr>playerSelectedCard := (if int i + 1 = q then None else Some (int i + 1))\<rparr>)"
proof -
  from used_iff_unavailable[OF reachable_parts(1)[OF assms(1)] assms(5)] assms(6)
  have "Num (Fin (int i + 1)) \<notin> set (playerUsedCards s)" by blast
  with assms(2-4) show ?thesis by (simp add: handleCardClick_def Let_def)
qed

theorem reselect_replaces_or_clears_witness:
  "reachable working selected_config \<and> gamePhase (fst selected_config) = Selection \<and>
   \<not> isLocked (fst selected_config) \<and> playerSelectedCard (fst selected_config) = Some 9 \<and>
   3 \<in> set (playerCards (fst selected_config)) \<and>
   handleCardClick 2 (fst selected_config) =
     Inr ((fst selected_config)\<lparr>playerSelectedCard := Some 3\<rparr>)"
proof -
  let ?s = "fst selected_config"
  have c: "selected_config = (?s, (0, 0), empty_storage)" by (simp add: selected_config_def)
  from reachable_selected c have r: "reachable working (?s, (0, 0), empty_storage)" by simp
  have h: "gamePhase ?s = Selection" "\<not> isLocked ?s" "playerSelectedCard ?s = Some 9"
    "(2::nat) < 9" "int 2 + 1 \<in> set (playerCards ?s)"
    by (simp_all add: selected_config_def init_def startGame_def)
  from reselect_replaces_or_clears[OF r h] reachable_selected h show ?thesis by simp
qed

text \<open>
  C10. In every reachable state the array of available cards of each side is strictly
  ascending. Hence the first three elements of the opponent's array are its three lowest
  available cards and the last three its three highest, which is what the two
  \<^verbatim>\<open>slice\<close> calls of \<^verbatim>\<open>cpuSelectCard\<close> take.
\<close>

theorem available_ascending:
  assumes "reachable service (s, pc, w)"
  shows "sorted_wrt (<) (playerCards s) \<and> sorted_wrt (<) (cpuCards s) \<and>
         set (take 3 (cpuCards s)) = bottomN (set (cpuCards s)) 3 \<and>
         set (drop (length (cpuCards s) - 3) (cpuCards s)) = topN (set (cpuCards s)) 3"
proof -
  from reachable_parts(1)[OF assms]
  have asc: "sorted_wrt (<) (playerCards s)" "sorted_wrt (<) (cpuCards s)"
    by (simp_all add: cards_inv_def)
  with bottomN_sorted[OF asc(2), of 3] topN_sorted[OF asc(2), of 3] show ?thesis by simp
qed

theorem available_ascending_witness:
  "reachable working turn2_config \<and> cpuCards (fst turn2_config) = [1, 2, 3, 4, 5, 6, 7, 9] \<and>
   sorted_wrt (<) (cpuCards (fst turn2_config)) \<and>
   bottomN (set (cpuCards (fst turn2_config))) 3 = {1, 2, 3} \<and>
   topN (set (cpuCards (fst turn2_config))) 3 = {6, 7, 9}"
proof -
  let ?s = "fst turn2_config"
  have c: "turn2_config = (?s, (0, 0), empty_storage)" by (simp add: turn2_config_def)
  from reachable_turn2 c have r: "reachable working (?s, (0, 0), empty_storage)" by simp
  have v: "cpuCards ?s = [1, 2, 3, 4, 5, 6, 7, 9]" by (simp add: turn2_config_def)
  from available_ascending[OF r] reachable_turn2 v show ?thesis by simp
qed

end
